theory Spec2Isabelle
  imports Complex_Main "HOL-Library.Sublist"
begin

section \<open>Strings of the product search route\<close>

text \<open>
  A JavaScript string is a sequence of UTF-16 code units; \<open>length\<close>, indexing,
  \<open>indexOf\<close>, \<open>===\<close> on characters and the regular expressions of
  \<open>src/app/api/products/route.ts\<close> (none has the \<open>u\<close> flag) all work on code units.
\<close>

type_synonym jsstring = "nat list"

text \<open>
  \<open>String.prototype.toLowerCase\<close> and \<open>String.prototype.normalize('NFD')\<close> are
  built-ins of the JavaScript engine, driven by the tables of the Unicode Character
  Database. They are not code of the repository: every function that calls them takes
  them as a parameter.
\<close>

record platform =
  toLowerCase :: "jsstring \<Rightarrow> jsstring"
  normalizeNFD :: "jsstring \<Rightarrow> jsstring"

text \<open>
  \<open>String.prototype.trim\<close> removes the code points of WhiteSpace and LineTerminator
  (ECMA-262) from both ends. All of them are single code units.
\<close>

definition isWhiteSpace :: "nat \<Rightarrow> bool" where
  "isWhiteSpace c \<longleftrightarrow>
     c = 0x9 \<or> c = 0xA \<or> c = 0xB \<or> c = 0xC \<or> c = 0xD \<or> c = 0x20 \<or> c = 0xA0 \<or>
     c = 0x1680 \<or> (0x2000 \<le> c \<and> c \<le> 0x200A) \<or> c = 0x2028 \<or> c = 0x2029 \<or>
     c = 0x202F \<or> c = 0x205F \<or> c = 0x3000 \<or> c = 0xFEFF"

definition trim :: "jsstring \<Rightarrow> jsstring" where
  "trim s = rev (dropWhile isWhiteSpace (rev (dropWhile isWhiteSpace s)))"

text \<open>\<open>.replace\<close> with the class of U+0300..U+036F and the \<open>g\<close> flag: every code unit of
  that range is deleted.\<close>

definition isDiacritic :: "nat \<Rightarrow> bool" where
  "isDiacritic c \<longleftrightarrow> 0x300 \<le> c \<and> c \<le> 0x36F"

definition removeDiacritics :: "jsstring \<Rightarrow> jsstring" where
  "removeDiacritics s = filter (\<lambda>c. \<not> isDiacritic c) s"

definition normalizeString :: "platform \<Rightarrow> jsstring \<Rightarrow> jsstring" where
  "normalizeString js str =
     trim (removeDiacritics (normalizeNFD js (toLowerCase js str)))"

subsection \<open>A fragment of the platform, for concrete inputs\<close>

text \<open>
  On a string made of ASCII code units and of the combining marks listed in \<open>ccc\<close>,
  the built-ins do the following: \<open>toLowerCase\<close> maps \<open>A\<close>..\<open>Z\<close> to \<open>a\<close>..\<open>z\<close> and
  leaves the rest (no listed mark has a case mapping); \<open>normalize('NFD')\<close> has nothing
  to decompose and applies the Canonical Ordering Algorithm of the Unicode Standard
  (section 3.11): a character of non-zero combining class moves left across every
  neighbour of greater non-zero class. \<open>ccc\<close> gives the Canonical_Combining_Class
  of \<open>UnicodeData.txt\<close> for U+0301 COMBINING ACUTE ACCENT (230), U+034F COMBINING
  GRAPHEME JOINER (0), U+05B4 HEBREW POINT HIRIQ (14) and U+05BC HEBREW POINT
  DAGESH (21); ASCII characters have class 0.
\<close>

definition asciiLower :: "nat \<Rightarrow> nat" where
  "asciiLower c = (if 0x41 \<le> c \<and> c \<le> 0x5A then c + 0x20 else c)"

definition ccc :: "nat \<Rightarrow> nat" where
  "ccc c = (if c = 0x301 then 230 else if c = 0x5B4 then 14 else if c = 0x5BC then 21 else 0)"

fun canonicalInsert :: "nat \<Rightarrow> jsstring \<Rightarrow> jsstring" where
  "canonicalInsert c [] = [c]"
| "canonicalInsert c (d # ds) =
     (if 0 < ccc d \<and> ccc d < ccc c then d # canonicalInsert c ds else c # d # ds)"

definition canonicalOrder :: "jsstring \<Rightarrow> jsstring" where
  "canonicalOrder s = foldr canonicalInsert s []"

definition fragment :: platform where
  "fragment = \<lparr>toLowerCase = map asciiLower, normalizeNFD = canonicalOrder\<rparr>"

text \<open>ASCII literals as code units.\<close>

definition str :: "string \<Rightarrow> jsstring" where
  "str s = map of_char s"

section \<open>Levenshtein distance\<close>

text \<open>\<open>previousRow[j] ?? 0\<close>: an index out of range reads \<open>undefined\<close>, replaced by 0.\<close>

definition orZero :: "nat list \<Rightarrow> nat \<Rightarrow> nat" where
  "orZero row j = (if j < length row then row ! j else 0)"

text \<open>\<open>str[i]\<close>: the code unit at \<open>i\<close>, or \<open>undefined\<close> (None) out of range.\<close>

definition charAt :: "jsstring \<Rightarrow> nat \<Rightarrow> nat option" where
  "charAt s i = (if i < length s then Some (s ! i) else None)"

text \<open>The callback of \<open>reduce\<close>: the row of index \<open>i\<close> from the previous row.\<close>

definition nextRow :: "jsstring \<Rightarrow> jsstring \<Rightarrow> nat list \<Rightarrow> nat \<Rightarrow> nat list" where
  "nextRow str1 str2 previousRow i =
     map (\<lambda>j. if j = 0 then i
              else let cost = (if charAt str1 (i - 1) = charAt str2 (j - 1) then 0 else 1)
                   in min (min (orZero previousRow j + 1) (orZero previousRow (j - 1) + cost))
                          (i + 1))
         [0 ..< length str2 + 1]"

definition levenshteinDistance :: "jsstring \<Rightarrow> jsstring \<Rightarrow> nat" where
  "levenshteinDistance str1 str2 =
     (let m = length str1; n = length str2 in
      if m = 0 then n
      else if n = 0 then m
      else let initialRow = [0 ..< n + 1];
               finalRow = foldl (nextRow str1 str2) initialRow (map (\<lambda>i. i + 1) [0 ..< m])
           in orZero finalRow n)"

definition fuzzyMatch :: "platform \<Rightarrow> jsstring \<Rightarrow> jsstring \<Rightarrow> nat \<Rightarrow> bool" where
  "fuzzyMatch js str1 str2 maxDistance \<longleftrightarrow>
     levenshteinDistance (normalizeString js str1) (normalizeString js str2) \<le> maxDistance"

text \<open>
  The classic edit distance, as the specification words it: the table \<open>D\<close> of
  \<open>(|a|+1) \<times> (|b|+1)\<close> entries, \<open>D i j\<close> the distance between the first \<open>i\<close>
  characters of \<open>a\<close> and the first \<open>j\<close> of \<open>b\<close>; deletion, insertion and
  substitution cost 1 each.
\<close>

fun editTable :: "jsstring \<Rightarrow> jsstring \<Rightarrow> nat \<Rightarrow> nat \<Rightarrow> nat" where
  "editTable a b 0 j = j"
| "editTable a b (Suc i) 0 = Suc i"
| "editTable a b (Suc i) (Suc j) =
     min (min (editTable a b i (Suc j) + 1) (editTable a b (Suc i) j + 1))
         (editTable a b i j + (if a ! i = b ! j then 0 else 1))"

definition classicEditDistance :: "jsstring \<Rightarrow> jsstring \<Rightarrow> nat" where
  "classicEditDistance a b = editTable a b (length a) (length b)"

section \<open>Match locator\<close>

text \<open>
  \<open>text.indexOf(query, start)\<close> (ECMA-262): \<open>start\<close> is clamped to the length of
  the text, and the result is the least \<open>k \<ge> start\<close> at which \<open>query\<close> occurs, or
  \<open>-1\<close> (None). The empty query occurs at every position up to the length.
\<close>

fun indexOfScan :: "jsstring \<Rightarrow> jsstring \<Rightarrow> nat \<Rightarrow> nat option" where
  "indexOfScan query [] k = (if query = [] then Some k else None)"
| "indexOfScan query (c # cs) k =
     (if prefix query (c # cs) then Some k else indexOfScan query cs (Suc k))"

definition indexOf :: "jsstring \<Rightarrow> jsstring \<Rightarrow> nat \<Rightarrow> nat option" where
  "indexOf text query start =
     (let k = min start (length text) in indexOfScan query (drop k text) k)"

definition includesStr :: "jsstring \<Rightarrow> jsstring \<Rightarrow> bool" where
  "includesStr text query \<longleftrightarrow> indexOf text query 0 \<noteq> None"

definition startsWith :: "jsstring \<Rightarrow> jsstring \<Rightarrow> bool" where
  "startsWith text query \<longleftrightarrow> prefix query text"

text \<open>
  The recursive helper of \<open>findMatches\<close>. Nothing in the source bounds the recursion,
  so a call that does not return has the value None (in the engine the call stack
  overflows and a RangeError is thrown).
\<close>

partial_function (option) findAllMatches ::
  "jsstring \<Rightarrow> jsstring \<Rightarrow> nat \<Rightarrow> (nat \<times> nat) list \<Rightarrow> (nat \<times> nat) list option" where
  "findAllMatches normalizedText normalizedQuery startIndex accumulator =
     (case indexOf normalizedText normalizedQuery startIndex of
        None \<Rightarrow> Some accumulator
      | Some position \<Rightarrow>
          findAllMatches normalizedText normalizedQuery (position + 1)
            (accumulator @ [(position, position + length normalizedQuery)]))"

declare findAllMatches.simps [code]

definition findMatches :: "platform \<Rightarrow> jsstring \<Rightarrow> jsstring \<Rightarrow> (nat \<times> nat) list option" where
  "findMatches js text query =
     findAllMatches (normalizeString js text) (normalizeString js query) 0 []"

section \<open>Products\<close>

text \<open>
  \<open>BakeryProduct\<close> is a union discriminated by \<open>category\<close>: the fields of
  \<open>BaseProduct\<close> and those of exactly one variant. JavaScript numbers are modelled by
  rationals (prices, ratings and protein contents are decimal literals of the catalog;
  NaN and the infinities do not occur in it).
\<close>

datatype ProductVariant =
    FlourProduct jsstring rat rat jsstring bool
      \<comment> \<open>flourType, proteinContent, weight, origin, organic\<close>
  | BannetonProduct jsstring jsstring rat bool
      \<comment> \<open>shape, material, capacity, linerIncluded\<close>
  | OvenProduct jsstring "jsstring list" jsstring jsstring rat
      \<comment> \<open>ovenType, features, powerRequirement, capacity, maxTemperature\<close>

record BakeryProduct =
  productId :: jsstring
  name :: jsstring
  brand :: jsstring
  price :: rat
  description :: jsstring
  imageUrl :: jsstring
  inStock :: bool
  stockQuantity :: "rat option"
  rating :: rat
  reviewCount :: rat
  tags :: "jsstring list"
  variant :: ProductVariant

definition category :: "BakeryProduct \<Rightarrow> jsstring" where
  "category product =
     (case variant product of
        FlourProduct _ _ _ _ _ \<Rightarrow> str ''flour''
      | BannetonProduct _ _ _ _ \<Rightarrow> str ''banneton''
      | OvenProduct _ _ _ _ _ \<Rightarrow> str ''oven'')"

definition isFlourProduct :: "BakeryProduct \<Rightarrow> bool" where
  "isFlourProduct product \<longleftrightarrow> category product = str ''flour''"

definition isOvenProduct :: "BakeryProduct \<Rightarrow> bool" where
  "isOvenProduct product \<longleftrightarrow> category product = str ''oven''"

section \<open>Relevance scorer\<close>

text \<open>
  \<open>query.match(/(\d+)%?\s*protein/i)\<close>. At a given start the pattern has one way to
  match: \<open>\d+\<close> takes the whole run of digits, \<open>%?\<close> the percent sign if it is
  there, \<open>\s*\<close> the whole run of white space, and backtracking to a shorter run leaves
  a digit, a percent sign or a white space in front of \<open>protein\<close>, which then fails.
  Without the \<open>u\<close> flag, \<open>i\<close> compares upper-cased code units and never maps a
  non-ASCII code unit to an ASCII one, so the letters of \<open>protein\<close> match their two
  ASCII cases only. \<open>match\<close> returns the leftmost start that matches, and the result is
  its group 1.
\<close>

definition isDigit :: "nat \<Rightarrow> bool" where
  "isDigit c \<longleftrightarrow> 0x30 \<le> c \<and> c \<le> 0x39"

definition matchProteinAt :: "jsstring \<Rightarrow> jsstring option" where
  "matchProteinAt s =
     (let digits = takeWhile isDigit s;
          afterDigits = dropWhile isDigit s;
          afterPercent = (case afterDigits of
                            [] \<Rightarrow> []
                          | c # cs \<Rightarrow> if c = 0x25 then cs else c # cs);
          afterSpace = dropWhile isWhiteSpace afterPercent
      in if digits \<noteq> [] \<and> map asciiLower (take 7 afterSpace) = str ''protein''
         then Some digits else None)"

fun proteinMatch :: "jsstring \<Rightarrow> jsstring option" where
  "proteinMatch [] = None"
| "proteinMatch (c # cs) =
     (case matchProteinAt (c # cs) of
        Some digits \<Rightarrow> Some digits
      | None \<Rightarrow> proteinMatch cs)"

text \<open>
  \<open>parseInt(digits, 10)\<close> on a non-empty string of ASCII digits (ECMA-262): the
  integer the digits denote in radix 10, converted to a Number, that is rounded to the
  nearest double, ties to the even significand. A double has a significand of 53 bits:
  \<open>excessBits n\<close> is the number of low bits of \<open>n\<close> that do not fit. A value that
  rounds to \<open>2 ^ 1024\<close> or more is \<open>Infinity\<close> (None). ECMA-262 lets an
  implementation replace the digits after the twentieth by zeros before the conversion;
  V8 does not.
\<close>

function excessBits :: "nat \<Rightarrow> nat" where
  "excessBits n = (if n < 2 ^ 53 then 0 else Suc (excessBits (n div 2)))"
  by pat_completeness auto
termination
  by (relation "measure id") auto

declare excessBits.simps [simp del]

definition toNumber :: "nat \<Rightarrow> nat option" where
  "toNumber n =
     (let e = excessBits n;
          significand = n div 2 ^ e;
          rest = n mod 2 ^ e;
          roundUp = (2 * rest > 2 ^ e \<or> (2 * rest = 2 ^ e \<and> odd significand));
          rounded = (if roundUp then significand + 1 else significand) * 2 ^ e
      in if rounded < 2 ^ 1024 then Some rounded else None)"

definition parseInt :: "jsstring \<Rightarrow> nat option" where
  "parseInt digits = toNumber (foldl (\<lambda>n c. 10 * n + (c - 0x30)) 0 digits)"

text \<open>The seven entries of \<open>scoreComponents\<close>, in the order of the source.\<close>

definition nameScore :: "platform \<Rightarrow> BakeryProduct \<Rightarrow> jsstring \<Rightarrow> int" where
  "nameScore js product query =
     (let normalizedQuery = normalizeString js query;
          normalizedName = normalizeString js (name product)
      in if normalizedName = normalizedQuery then 100
         else if startsWith normalizedName normalizedQuery then 80
         else if includesStr normalizedName normalizedQuery then 60
         else if fuzzyMatch js normalizedName normalizedQuery 2 then 10
         else 0)"

definition brandScore :: "platform \<Rightarrow> BakeryProduct \<Rightarrow> jsstring \<Rightarrow> int" where
  "brandScore js product query =
     (let normalizedQuery = normalizeString js query;
          normalizedBrand = normalizeString js (brand product)
      in if normalizedBrand = normalizedQuery then 50
         else if includesStr normalizedBrand normalizedQuery then 30
         else 0)"

definition descriptionScore :: "platform \<Rightarrow> BakeryProduct \<Rightarrow> jsstring \<Rightarrow> int" where
  "descriptionScore js product query =
     (if includesStr (normalizeString js (description product)) (normalizeString js query)
      then 20 else 0)"

definition tagScore :: "platform \<Rightarrow> BakeryProduct \<Rightarrow> jsstring \<Rightarrow> int" where
  "tagScore js product query =
     foldl (\<lambda>acc _. acc + 40) 0
       (filter (\<lambda>tag. includesStr (normalizeString js tag) (normalizeString js query))
          (tags product))"

definition flourScore :: "BakeryProduct \<Rightarrow> jsstring \<Rightarrow> int" where
  "flourScore product query =
     (case variant product of
        FlourProduct _ proteinContent _ _ _ \<Rightarrow>
          (case proteinMatch query of
             None \<Rightarrow> 0
           | Some digits \<Rightarrow>
               (case parseInt digits of
                  None \<Rightarrow> 0
                | Some queryProtein \<Rightarrow>
                    let diff = \<bar>proteinContent - of_nat queryProtein\<bar>
                    in if diff \<le> 1 then 10 else 0))
      | _ \<Rightarrow> 0)"

definition ovenScore :: "platform \<Rightarrow> BakeryProduct \<Rightarrow> jsstring \<Rightarrow> int" where
  "ovenScore js product query =
     (case variant product of
        OvenProduct _ features _ _ _ \<Rightarrow>
          foldl (\<lambda>acc _. acc + 15) 0
            (filter (\<lambda>feature. includesStr (normalizeString js query)
                                  (normalizeString js feature))
               features)
      | _ \<Rightarrow> 0)"

definition popularityScore :: "BakeryProduct \<Rightarrow> int" where
  "popularityScore product = (if rating product \<ge> 9 / 2 then 5 else 0)"

definition calculateRelevanceScore :: "platform \<Rightarrow> BakeryProduct \<Rightarrow> jsstring \<Rightarrow> int" where
  "calculateRelevanceScore js product query =
     (if trim query = [] then 0
      else let scoreComponents =
                 [nameScore js product query,
                  brandScore js product query,
                  descriptionScore js product query,
                  tagScore js product query,
                  flourScore product query,
                  ovenScore js product query,
                  popularityScore product]
           in foldl (\<lambda>total component. total + component) 0 scoreComponents)"

section \<open>Filter engine\<close>

datatype LogicMode = AND | OR

record ParsedSearchParams =
  q :: jsstring
  categories :: "jsstring list"
  minPrice :: rat
  maxPrice :: rat
  minRating :: rat
  inStockParam :: "bool option"
  organicParam :: "bool option"
  logicMode :: LogicMode

text \<open>
  The callback of \<open>products.filter\<close>, with its early returns in the order of the
  source. \<open>categorySet\<close> is \<open>new Set(params.categories)\<close>; \<open>undefined\<close> is None.
\<close>

definition passesFilters :: "ParsedSearchParams \<Rightarrow> BakeryProduct \<Rightarrow> bool" where
  "passesFilters params product =
     (let categorySet = set (categories params) in
      if categorySet \<noteq> {} \<and> category product \<notin> categorySet then False
      else if price product < minPrice params \<or> price product > maxPrice params then False
      else if rating product < minRating params then False
      else if inStockParam params \<noteq> None \<and> Some (inStock product) \<noteq> inStockParam params
        then False
      else (case organicParam params of
              None \<Rightarrow> True
            | Some wanted \<Rightarrow>
                (case variant product of
                   FlourProduct _ _ _ _ organic \<Rightarrow> if organic \<noteq> wanted then False else True
                 | _ \<Rightarrow> False)))"

definition applyFilters :: "BakeryProduct list \<Rightarrow> ParsedSearchParams \<Rightarrow> BakeryProduct list" where
  "applyFilters products params = filter (passesFilters params) products"

section \<open>Query pipeline\<close>

record SearchResult =
  product :: BakeryProduct
  score :: int
  matches :: "(nat \<times> nat) list"

text \<open>
  \<open>Array.prototype.sort\<close> with a comparator is stable (ECMA-262 since 2019) and, for a
  consistent comparator, ordered by it: \<open>a\<close> comes before \<open>b\<close> when
  \<open>compare(a, b) \<le> 0\<close> holds and not \<open>compare(b, a) < 0\<close>. Stability determines
  the result, which is the one of insertion from the right.
\<close>

fun insertSorted :: "('a \<Rightarrow> 'a \<Rightarrow> 'n::linordered_idom) \<Rightarrow> 'a \<Rightarrow> 'a list \<Rightarrow> 'a list" where
  "insertSorted compare x [] = [x]"
| "insertSorted compare x (y # ys) =
     (if compare x y \<le> 0 then x # y # ys else y # insertSorted compare x ys)"

definition sortBy :: "('a \<Rightarrow> 'a \<Rightarrow> 'n::linordered_idom) \<Rightarrow> 'a list \<Rightarrow> 'a list" where
  "sortBy compare xs = foldr (insertSorted compare) xs []"

text \<open>\<open>Array.prototype.map\<close> with a callback that may not return: the first call
  that does not return ends the whole \<open>map\<close>.\<close>

fun mapResults :: "('a \<Rightarrow> 'b option) \<Rightarrow> 'a list \<Rightarrow> 'b list option" where
  "mapResults f [] = Some []"
| "mapResults f (x # xs) =
     (case f x of
        None \<Rightarrow> None
      | Some y \<Rightarrow> (case mapResults f xs of None \<Rightarrow> None | Some ys \<Rightarrow> Some (y # ys)))"

definition toSearchResult :: "platform \<Rightarrow> jsstring \<Rightarrow> BakeryProduct \<Rightarrow> SearchResult option" where
  "toSearchResult js query p =
     (case findMatches js (name p) query of
        None \<Rightarrow> None
      | Some spans \<Rightarrow>
          Some \<lparr>product = p, score = calculateRelevanceScore js p query, matches = spans\<rparr>)"

text \<open>
  The computation of \<open>finalResults\<close> in \<open>GET\<close>, from the parsed parameters and the
  catalog \<open>MOCK_PRODUCTS\<close> (the simulated delay and failure come before it). None:
  a call of \<open>findMatches\<close> did not return, and the handler answers with status 500.
\<close>

definition search :: "platform \<Rightarrow> BakeryProduct list \<Rightarrow> ParsedSearchParams \<Rightarrow> BakeryProduct list option" where
  "search js catalog params =
     (let filteredProducts = applyFilters catalog params in
      if trim (q params) \<noteq> [] then
        (case mapResults (toSearchResult js (q params)) filteredProducts of
           None \<Rightarrow> None
         | Some results \<Rightarrow>
             Some (map product
                    (sortBy (\<lambda>a b. score b - score a)
                       (filter (\<lambda>result. score result > 0) results))))
      else Some (sortBy (\<lambda>a b. rating b - rating a) filteredProducts))"

section \<open>The specification's wording of two components\<close>

text \<open>\<open>product.organic\<close>: a field of flour products only.\<close>

definition organicFlag :: "BakeryProduct \<Rightarrow> bool option" where
  "organicFlag p = (case variant p of FlourProduct _ _ _ _ organic \<Rightarrow> Some organic | _ \<Rightarrow> None)"

text \<open>The five conditions of the Filter Engine, as the specification lists them.\<close>

definition filterSpec :: "ParsedSearchParams \<Rightarrow> BakeryProduct \<Rightarrow> bool" where
  "filterSpec params p \<longleftrightarrow>
     (categories params \<noteq> [] \<longrightarrow> category p \<in> set (categories params)) \<and>
     (minPrice params \<le> price p \<and> price p \<le> maxPrice params) \<and>
     rating p \<ge> minRating params \<and>
     (\<forall>wanted. inStockParam params = Some wanted \<longrightarrow> inStock p = wanted) \<and>
     (\<forall>wanted. organicParam params = Some wanted \<longrightarrow>
        isFlourProduct p \<and> organicFlag p = Some wanted)"

text \<open>
  The protein pattern occurs in a query at position \<open>k\<close> with the digit group
  \<open>digits\<close>: from \<open>k\<close> on the query reads a non-empty group of digits, then an
  optional percent sign, then optional white space, then the word \<open>protein\<close> in any
  mix of cases.
\<close>

definition proteinPatternAt :: "jsstring \<Rightarrow> nat \<Rightarrow> jsstring \<Rightarrow> bool" where
  "proteinPatternAt query k digits \<longleftrightarrow>
     (\<exists>before percent space word after.
        query = before @ digits @ percent @ space @ word @ after \<and>
        length before = k \<and>
        digits \<noteq> [] \<and> list_all isDigit digits \<and>
        (percent = [] \<or> percent = [0x25]) \<and>
        list_all isWhiteSpace space \<and>
        map asciiLower word = str ''protein'')"

definition containsProteinPattern :: "jsstring \<Rightarrow> bool" where
  "containsProteinPattern query \<longleftrightarrow> (\<exists>k digits. proteinPatternAt query k digits)"


section \<open>A small catalog\<close>

definition sampleBanneton :: BakeryProduct where
  "sampleBanneton =
     \<lparr>productId = str ''b1'', name = str ''Boat'', brand = str ''Cane'', price = 25,
      description = str ''basket'', imageUrl = str ''b1.jpg'', inStock = True,
      stockQuantity = Some 12, rating = 4, reviewCount = 7, tags = [str ''round''],
      variant = BannetonProduct (str ''round'') (str ''rattan'') 750 True\<rparr>"

definition sampleOven :: BakeryProduct where
  "sampleOven =
     \<lparr>productId = str ''o1'', name = str ''Oat Oven'', brand = str ''Heat'', price = 900,
      description = str ''deck'', imageUrl = str ''o1.jpg'', inStock = True,
      stockQuantity = Some 2, rating = 4, reviewCount = 3, tags = [str ''oat''],
      variant = OvenProduct (str ''deck'') [str ''door''] (str ''220V'') (str ''2 decks'') 300\<rparr>"

definition sampleRye :: BakeryProduct where
  "sampleRye =
     \<lparr>productId = str ''f2'', name = str ''Rye'', brand = str ''Mill'', price = 4,
      description = str ''dark'', imageUrl = str ''f2.jpg'', inStock = False,
      stockQuantity = None, rating = 3, reviewCount = 1, tags = [],
      variant = FlourProduct (str ''rye'') 9 1 (str ''Germany'') False\<rparr>"

definition sampleFlour :: BakeryProduct where
  "sampleFlour =
     \<lparr>productId = str ''f1'', name = str ''Oat Flour'', brand = str ''Mill'', price = 5,
      description = str ''fine'', imageUrl = str ''f1.jpg'', inStock = True,
      stockQuantity = Some 40, rating = 4, reviewCount = 9, tags = [str ''oat''],
      variant = FlourProduct (str ''oat'') (23 / 2) 1 (str ''France'') True\<rparr>"

definition sampleCatalog :: "BakeryProduct list" where
  "sampleCatalog = [sampleBanneton, sampleOven, sampleRye, sampleFlour]"

definition sampleParams :: ParsedSearchParams where
  "sampleParams =
     \<lparr>q = str ''oat'', categories = [], minPrice = 0, maxPrice = 5000, minRating = 0,
      inStockParam = None, organicParam = None, logicMode = AND\<rparr>"

definition organicParams :: ParsedSearchParams where
  "organicParams =
     \<lparr>q = [], categories = [str ''flour'', str ''oven''], minPrice = 0, maxPrice = 5000,
      minRating = 0, inStockParam = Some True, organicParam = Some True, logicMode = OR\<rparr>"

section \<open>Levenshtein distance: the code against the classic distance\<close>

lemma editTable_zero_right: "editTable a b i 0 = i"
  by (cases i) simp_all

lemma editTable_swap: "editTable a b i j = editTable b a j i"
  by (induction a b i j rule: editTable.induct)
     (simp_all add: editTable_zero_right min.commute min.left_commute eq_commute)

text \<open>The classic distance itself is symmetric, so symmetry is a property the
  documented algorithm has.\<close>

lemma classicEditDistance_symmetric: "classicEditDistance a b = classicEditDistance b a"
  by (simp add: classicEditDistance_def editTable_swap)

text \<open>
  C1. \<open>levenshteinDistance\<close> is documented as the minimum number of single-character
  edits, but its third alternative is \<open>i + 1\<close> (the row index plus one) where the
  recurrence has the entry to the left in the current row plus one. Between \<open>a\<close> and
  \<open>ab\<close> one insertion is enough and the classic table gives 1; the code returns 2.
\<close>

theorem levenshteinDistance_not_classic:
  "levenshteinDistance (str ''a'') (str ''ab'') = 2 \<and>
   classicEditDistance (str ''a'') (str ''ab'') = 1"
  by (simp add: levenshteinDistance_def nextRow_def orZero_def charAt_def
      classicEditDistance_def str_def upt_conv_Cons numeral_2_eq_2)

text \<open>
  C2. The same defect makes the result depend on the order of the arguments: the code
  returns 2 from \<open>a\<close> to \<open>ab\<close> and 1 from \<open>ab\<close> to \<open>a\<close>.
\<close>

theorem levenshteinDistance_not_symmetric:
  "levenshteinDistance (str ''a'') (str ''ab'') = 2 \<and>
   levenshteinDistance (str ''ab'') (str ''a'') = 1"
  by (simp add: levenshteinDistance_def nextRow_def orZero_def charAt_def str_def upt_conv_Cons)

section \<open>Match locator: properties\<close>

lemma indexOfScan_empty: "indexOfScan [] cs k = Some k"
  by (cases cs) simp_all

lemma indexOf_empty: "indexOf text [] start = Some (min start (length text))"
  by (simp add: indexOf_def indexOfScan_empty)

lemma indexOfScan_bounds:
  "indexOfScan query cs k = Some p \<Longrightarrow> k \<le> p \<and> p + length query \<le> k + length cs"
proof (induction cs arbitrary: k)
  case Nil
  then show ?case by (simp split: if_splits)
next
  case (Cons c cs)
  show ?case
  proof (cases "prefix query (c # cs)")
    case True
    with Cons.prems have "p = k" by simp
    moreover from True have "length query \<le> length (c # cs)" by (rule prefix_length_le)
    ultimately show ?thesis by simp
  next
    case False
    with Cons.prems have "indexOfScan query cs (Suc k) = Some p" by simp
    from Cons.IH[OF this] show ?thesis by simp
  qed
qed

lemma indexOf_bounds:
  assumes "indexOf text query start = Some p" and "query \<noteq> []"
  shows "start \<le> p \<and> p + length query \<le> length text"
proof -
  let ?k = "min start (length text)"
  from assms(1) have "indexOfScan query (drop ?k text) ?k = Some p"
    by (simp add: indexOf_def Let_def)
  from indexOfScan_bounds[OF this]
  have b: "?k \<le> p" "p + length query \<le> length text" by simp_all
  from assms(2) have "1 \<le> length query" by (cases query) simp_all
  with b show ?thesis by (cases "start \<le> length text") (simp_all add: min_def)
qed

text \<open>With the empty query \<open>indexOf\<close> always finds a position, so the recursion of
  \<open>findAllMatches\<close> has no last call.\<close>

lemma findAllMatches_returns_nonempty:
  assumes "findAllMatches nt nq s acc = Some r"
  shows "nq \<noteq> []"
proof (rule findAllMatches.raw_induct[where P = "\<lambda>_ query _ _ _. query \<noteq> []", OF _ assms])
  fix f :: "jsstring \<Rightarrow> jsstring \<Rightarrow> nat \<Rightarrow> (nat \<times> nat) list \<Rightarrow> (nat \<times> nat) list option"
    and t query :: jsstring and k :: nat and a y :: "(nat \<times> nat) list"
  assume IH: "\<And>t' q' k' a' y'. f t' q' k' a' = Some y' \<Longrightarrow> q' \<noteq> []"
    and body: "(case indexOf t query k of
                  None \<Rightarrow> Some a
                | Some position \<Rightarrow>
                    f t query (position + 1) (a @ [(position, position + length query)])) = Some y"
  show "query \<noteq> []"
  proof
    assume "query = []"
    with body have "f t [] (min k (length t) + 1) (a @ [(min k (length t), min k (length t) + 0)]) = Some y"
      by (simp add: indexOf_empty)
    from IH[OF this] show False by simp
  qed
qed

lemma findAllMatches_empty_query: "findAllMatches nt [] s acc = None"
  using findAllMatches_returns_nonempty[of nt "[]" s acc]
  by (cases "findAllMatches nt [] s acc") auto

text \<open>With a non-empty query every call moves the start beyond the match found, and the
  recursion ends after at most \<open>length nt - s + 1\<close> calls.\<close>

lemma findAllMatches_spans:
  assumes "nq \<noteq> []"
  shows "\<exists>new. findAllMatches nt nq s acc = Some (acc @ new) \<and>
           (\<forall>(a, b) \<in> set new. s \<le> a \<and> b = a + length nq \<and> b \<le> length nt) \<and>
           sorted_wrt (<) (map fst new)"
proof (induction "length nt - s" arbitrary: s acc rule: less_induct)
  case less
  show ?case
  proof (cases "indexOf nt nq s")
    case None
    then have "findAllMatches nt nq s acc = Some (acc @ [])"
      by (subst findAllMatches.simps) simp
    then show ?thesis by (intro exI[of _ "[]"]) simp
  next
    case (Some p)
    from indexOf_bounds[OF Some assms] have b: "s \<le> p" "p + length nq \<le> length nt" by simp_all
    from assms have "1 \<le> length nq" by (cases nq) simp_all
    with b have "length nt - (p + 1) < length nt - s" by linarith
    from less[OF this, of "acc @ [(p, p + length nq)]"]
    obtain new where n:
      "findAllMatches nt nq (p + 1) (acc @ [(p, p + length nq)]) =
         Some ((acc @ [(p, p + length nq)]) @ new)"
      "\<forall>(a, b) \<in> set new. p + 1 \<le> a \<and> b = a + length nq \<and> b \<le> length nt"
      "sorted_wrt (<) (map fst new)" by blast
    from Some n(1) have "findAllMatches nt nq s acc = Some (acc @ ((p, p + length nq) # new))"
      by (subst findAllMatches.simps) simp
    moreover from n(2) b
    have "\<forall>(a, b) \<in> set ((p, p + length nq) # new). s \<le> a \<and> b = a + length nq \<and> b \<le> length nt"
      by auto
    moreover from n(2) n(3) have "sorted_wrt (<) (map fst ((p, p + length nq) # new))"
      by auto
    ultimately show ?thesis by blast
  qed
qed

lemma findMatches_total:
  "normalizeString js query \<noteq> [] \<Longrightarrow> \<exists>spans. findMatches js text query = Some spans"
  using findAllMatches_spans[of "normalizeString js query" "normalizeString js text" 0 "[]"]
  by (auto simp: findMatches_def)

text \<open>
  C3. For a query whose normalized form is empty, \<open>findMatches\<close> does not return the
  empty list: it does not return at all. \<open>indexOf\<close> with the empty string answers
  the clamped start, never \<open>-1\<close>, and the helper calls itself without end. The
  component \<open>SearchHighlight\<close> has a \<open>findMatches\<close> of its own that returns \<open>[]\<close>
  for a blank query before searching; the route guards the call with
  \<open>params.q.trim()\<close> only, which a query made of one combining mark passes.
\<close>

theorem findMatches_blank_query_diverges:
  "normalizeString js query = [] \<Longrightarrow> findMatches js text query = None"
  by (simp add: findMatches_def findAllMatches_empty_query)

theorem findMatches_blank_query_diverges_witness:
  "normalizeString fragment [0x301] = [] \<and> findMatches fragment (str ''abc'') [0x301] = None"
proof -
  have h: "normalizeString fragment [0x301] = []"
    by (simp add: normalizeString_def fragment_def trim_def removeDiacritics_def
        isDiacritic_def canonicalOrder_def asciiLower_def isWhiteSpace_def)
  from findMatches_blank_query_diverges[OF h, of "str ''abc''"] h show ?thesis by simp
qed

text \<open>
  C10. For a query whose normalized form is not empty, \<open>findMatches\<close> returns, and in
  the list it returns every span \<open>(start, end)\<close> has \<open>0 \<le> start\<close>,
  \<open>end = start + length (normalized query)\<close> and \<open>end \<le> length (normalized text)\<close>,
  and the starts increase strictly along the list.
\<close>

theorem findMatches_spans:
  assumes "normalizeString js query \<noteq> []"
  shows "\<exists>spans. findMatches js text query = Some spans \<and>
           (\<forall>(start, end) \<in> set spans.
              0 \<le> start \<and> end = start + length (normalizeString js query) \<and>
              end \<le> length (normalizeString js text)) \<and>
           sorted_wrt (<) (map fst spans)"
  using findAllMatches_spans[OF assms, of "normalizeString js text" 0 "[]"]
  by (auto simp: findMatches_def)

theorem findMatches_spans_witness:
  "normalizeString fragment (str ''aa'') \<noteq> [] \<and>
   findMatches fragment (str ''aaaa'') (str ''aa'') = Some [(0, 2), (1, 3), (2, 4)] \<and>
   (\<exists>spans. findMatches fragment (str ''aaaa'') (str ''aa'') = Some spans \<and>
           (\<forall>(start, end) \<in> set spans.
              0 \<le> start \<and> end = start + length (normalizeString fragment (str ''aa'')) \<and>
              end \<le> length (normalizeString fragment (str ''aaaa''))) \<and>
           sorted_wrt (<) (map fst spans))"
proof -
  have n: "normalizeString fragment (str ''aa'') = str ''aa''"
    "normalizeString fragment (str ''aaaa'') = str ''aaaa''"
    by (simp_all add: normalizeString_def fragment_def trim_def removeDiacritics_def
        isDiacritic_def canonicalOrder_def ccc_def asciiLower_def isWhiteSpace_def str_def)
  then have h: "normalizeString fragment (str ''aa'') \<noteq> []" by (simp add: str_def)
  have e: "findMatches fragment (str ''aaaa'') (str ''aa'') = Some [(0, 2), (1, 3), (2, 4)]"
    unfolding findMatches_def n
    apply (subst findAllMatches.simps, simp add: indexOf_def str_def)
    apply (subst findAllMatches.simps, simp add: indexOf_def str_def)
    apply (subst findAllMatches.simps, simp add: indexOf_def str_def)
    apply (subst findAllMatches.simps, simp add: indexOf_def str_def)
    done
  from findMatches_spans[OF h, of "str ''aaaa''"] h e show ?thesis by blast
qed

section \<open>Query pipeline: properties\<close>

text \<open>The comparator \<open>b.score - a.score\<close> sorts by the negated score.\<close>

lemma insertSorted_insort_key:
  fixes f :: "'a \<Rightarrow> 'n::linordered_idom"
  shows "insertSorted (\<lambda>a b. f b - f a) x ys = insort_key (\<lambda>x. - f x) x ys"
  by (induction ys) simp_all

lemma sortBy_sort_key:
  fixes f :: "'a \<Rightarrow> 'n::linordered_idom"
  shows "sortBy (\<lambda>a b. f b - f a) xs = sort_key (\<lambda>x. - f x) xs"
  unfolding sortBy_def sort_key_def by (induction xs) (simp_all add: insertSorted_insort_key)

lemma map_insort_key: "map g (insort_key (\<lambda>x. f (g x)) x ys) = insort_key f (g x) (map g ys)"
  by (induction ys) simp_all

lemma map_sort_key: "map g (sort_key (\<lambda>x. f (g x)) xs) = sort_key f (map g xs)"
  by (induction xs) (simp_all add: map_insort_key)

lemma mapResults_toSearchResult:
  "mapResults (toSearchResult js query) ps = Some rs \<Longrightarrow>
   rs = map (\<lambda>p. \<lparr>product = p, score = calculateRelevanceScore js p query,
                    matches = the (findMatches js (name p) query)\<rparr>) ps"
  by (induction ps arbitrary: rs) (auto simp: toSearchResult_def split: option.splits)

lemma mapResults_returns:
  "(\<And>x. x \<in> set xs \<Longrightarrow> f x \<noteq> None) \<Longrightarrow> mapResults f xs \<noteq> None"
  by (induction xs) (auto split: option.splits)

lemma search_with_query:
  assumes "trim (q params) \<noteq> []" and "search js catalog params = Some out"
  shows "out = sort_key (\<lambda>p. - calculateRelevanceScore js p (q params))
                 (filter (\<lambda>p. 0 < calculateRelevanceScore js p (q params))
                    (applyFilters catalog params))"
proof -
  let ?sc = "\<lambda>p. calculateRelevanceScore js p (q params)"
  let ?mk = "\<lambda>p. \<lparr>product = p, score = ?sc p, matches = the (findMatches js (name p) (q params))\<rparr>"
  from assms obtain rs where rs: "mapResults (toSearchResult js (q params)) (applyFilters catalog params) = Some rs"
    and out: "out = map product (sortBy (\<lambda>a b. score b - score a) (filter (\<lambda>result. score result > 0) rs))"
    by (auto simp: search_def Let_def split: option.splits)
  from mapResults_toSearchResult[OF rs] have "rs = map ?mk (applyFilters catalog params)" .
  then have "filter (\<lambda>result. score result > 0) rs = map ?mk (filter (\<lambda>p. 0 < ?sc p) (applyFilters catalog params))"
    by (simp add: filter_map o_def)
  with out have "out = map product (sort_key (\<lambda>r. - score r) (map ?mk (filter (\<lambda>p. 0 < ?sc p) (applyFilters catalog params))))"
    by (simp add: sortBy_sort_key)
  also have "\<dots> = map product (map ?mk (sort_key (\<lambda>p. - score (?mk p)) (filter (\<lambda>p. 0 < ?sc p) (applyFilters catalog params))))"
    using map_sort_key[of ?mk "\<lambda>r. - score r"] by simp
  also have "\<dots> = sort_key (\<lambda>p. - ?sc p) (filter (\<lambda>p. 0 < ?sc p) (applyFilters catalog params))"
    by (simp add: o_def)
  finally show ?thesis .
qed


lemma search_returns:
  assumes "normalizeString js (q params) \<noteq> []"
  shows "search js catalog params \<noteq> None"
proof -
  have "\<And>p. toSearchResult js (q params) p \<noteq> None"
    using findMatches_total[OF assms] by (auto simp: toSearchResult_def split: option.splits)
  then have "mapResults (toSearchResult js (q params)) (applyFilters catalog params) \<noteq> None"
    by (intro mapResults_returns) simp
  then show ?thesis by (auto simp: search_def Let_def split: option.splits)
qed

text \<open>
  C4. For a query whose trimmed form is not empty, the output of \<open>search\<close> is ordered
  by score: the scores do not increase along the output, and for every score the
  products of that score come in the order they have in the filtered set. The search
  returns whenever the normalized query is not empty.
\<close>

theorem search_sorted_stable:
  assumes "trim (q params) \<noteq> []"
  shows "(normalizeString js (q params) \<noteq> [] \<longrightarrow> search js catalog params \<noteq> None) \<and>
         (\<forall>out. search js catalog params = Some out \<longrightarrow>
            sorted_wrt (\<lambda>a b. calculateRelevanceScore js a (q params) \<ge>
                               calculateRelevanceScore js b (q params)) out \<and>
            (\<forall>k. filter (\<lambda>p. calculateRelevanceScore js p (q params) = k) out =
                  filter (\<lambda>p. calculateRelevanceScore js p (q params) = k)
                    (filter (\<lambda>p. 0 < calculateRelevanceScore js p (q params))
                       (applyFilters catalog params))))"
proof (intro conjI allI impI)
  assume "normalizeString js (q params) \<noteq> []"
  then show "search js catalog params \<noteq> None" by (rule search_returns)
next
  fix out assume "search js catalog params = Some out"
  note out = search_with_query[OF assms this]
  let ?sc = "\<lambda>p. calculateRelevanceScore js p (q params)"
  have "sorted (map (\<lambda>p. - ?sc p) out)" unfolding out by (rule sorted_sort_key)
  then show "sorted_wrt (\<lambda>a b. ?sc a \<ge> ?sc b) out" by (simp add: sorted_map)
next
  fix out k assume "search js catalog params = Some out"
  note out = search_with_query[OF assms this]
  let ?sc = "\<lambda>p. calculateRelevanceScore js p (q params)"
  have "filter (\<lambda>p. - ?sc p = - k) out =
        filter (\<lambda>p. - ?sc p = - k) (filter (\<lambda>p. 0 < ?sc p) (applyFilters catalog params))"
    unfolding out by (rule sort_key_stable)
  then show "filter (\<lambda>p. ?sc p = k) out =
        filter (\<lambda>p. ?sc p = k) (filter (\<lambda>p. 0 < ?sc p) (applyFilters catalog params))"
    by simp
qed

text \<open>
  C5. For a query whose trimmed form is not empty, the output of \<open>search\<close> consists
  exactly of the filtered products of score above 0: every product of the output has a
  positive score, and a product of score 0 is discarded.
\<close>

theorem search_positive_scores:
  assumes "trim (q params) \<noteq> []"
  shows "(normalizeString js (q params) \<noteq> [] \<longrightarrow> search js catalog params \<noteq> None) \<and>
         (\<forall>out. search js catalog params = Some out \<longrightarrow>
            set out = {p \<in> set (applyFilters catalog params).
                         0 < calculateRelevanceScore js p (q params)})"
proof (intro conjI allI impI)
  assume "normalizeString js (q params) \<noteq> []"
  then show "search js catalog params \<noteq> None" by (rule search_returns)
next
  fix out assume "search js catalog params = Some out"
  note out = search_with_query[OF assms this]
  show "set out = {p \<in> set (applyFilters catalog params).
                         0 < calculateRelevanceScore js p (q params)}"
    unfolding out by simp
qed

section \<open>Filter engine: properties\<close>

lemma passesFilters_logicMode:
  "passesFilters (params\<lparr>logicMode := mode\<rparr>) = passesFilters params"
  by (rule ext) (simp add: passesFilters_def)

lemma applyFilters_logicMode:
  "applyFilters catalog (params\<lparr>logicMode := mode\<rparr>) = applyFilters catalog params"
  by (simp add: applyFilters_def passesFilters_logicMode)

text \<open>
  C8. The logic mode is not read: \<open>search\<close> gives the same result with \<open>AND\<close> and
  with \<open>OR\<close>, and the filter predicate is the same function whatever the mode.
\<close>

theorem logicMode_noop:
  "search js catalog (params\<lparr>logicMode := AND\<rparr>) = search js catalog (params\<lparr>logicMode := OR\<rparr>) \<and>
   applyFilters catalog (params\<lparr>logicMode := mode\<rparr>) = applyFilters catalog params \<and>
   passesFilters (params\<lparr>logicMode := mode\<rparr>) = passesFilters params"
  by (simp add: search_def Let_def applyFilters_logicMode passesFilters_logicMode)

lemma isFlourProduct_variant:
  "isFlourProduct p \<longleftrightarrow> (\<exists>ft pc w orig org. variant p = FlourProduct ft pc w orig org)"
  by (cases "variant p") (simp_all add: isFlourProduct_def category_def str_def)

lemma passesFilters_filterSpec: "passesFilters params p = filterSpec params p"
  by (cases "variant p"; cases "inStockParam params"; cases "organicParam params")
     (auto simp: passesFilters_def filterSpec_def isFlourProduct_variant organicFlag_def Let_def)

text \<open>
  C6. \<open>applyFilters\<close> keeps, in the order of the catalog, exactly the products that
  meet the five conditions of the specification; when the organic filter is set, no
  product other than a flour product is kept.
\<close>

theorem applyFilters_spec:
  "applyFilters products params = filter (filterSpec params) products \<and>
   (\<forall>p. p \<in> set (applyFilters products params) \<longleftrightarrow> p \<in> set products \<and> filterSpec params p) \<and>
   (organicParam params \<noteq> None \<longrightarrow>
      (\<forall>p \<in> set products. \<not> isFlourProduct p \<longrightarrow> p \<notin> set (applyFilters products params)))"
proof -
  have e: "applyFilters products params = filter (filterSpec params) products"
    by (simp add: applyFilters_def passesFilters_filterSpec cong: filter_cong)
  then show ?thesis by (auto simp: filterSpec_def)
qed

section \<open>Normalizer: properties\<close>

lemma set_trim: "set (trim s) \<subseteq> set s"
proof
  fix x assume "x \<in> set (trim s)"
  then have "x \<in> set (dropWhile isWhiteSpace (rev (dropWhile isWhiteSpace s)))"
    by (simp add: trim_def)
  then have "x \<in> set (rev (dropWhile isWhiteSpace s))" by (rule set_dropWhileD)
  then have "x \<in> set (dropWhile isWhiteSpace s)" by simp
  then show "x \<in> set s" by (rule set_dropWhileD)
qed

lemma last_dropWhile_eq: "dropWhile P xs \<noteq> [] \<Longrightarrow> last (dropWhile P xs) = last xs"
  by (induction xs) (auto split: if_splits)

lemma dropWhile_trim: "dropWhile isWhiteSpace (trim s) = trim s"
proof (cases "trim s = []")
  case True
  then show ?thesis by simp
next
  case False
  let ?t = "dropWhile isWhiteSpace s"
  let ?u = "dropWhile isWhiteSpace (rev ?t)"
  from False have u: "?u \<noteq> []" by (simp add: trim_def)
  have t: "?t \<noteq> []"
  proof
    assume "?t = []"
    then have "?u = []" by (simp only: rev.simps dropWhile.simps)
    with u show False by contradiction
  qed
  have "hd (trim s) = last ?u" by (simp add: trim_def hd_rev)
  also from u have "\<dots> = last (rev ?t)" by (rule last_dropWhile_eq)
  also have "\<dots> = hd ?t" using t by (simp add: last_rev)
  finally have "hd (trim s) = hd ?t" .
  moreover from t have "\<not> isWhiteSpace (hd ?t)" by (rule hd_dropWhile)
  ultimately have "\<not> isWhiteSpace (hd (trim s))" by simp
  with False show ?thesis by (cases "trim s") simp_all
qed

lemma trim_trim: "trim (trim s) = trim s"
proof -
  have "dropWhile isWhiteSpace (rev (trim s)) = rev (trim s)"
    by (simp add: trim_def dropWhile_idem)
  then show ?thesis by (simp add: trim_def[of "trim s"] dropWhile_trim)
qed

lemma removeDiacritics_trim: "removeDiacritics (trim (removeDiacritics s)) = trim (removeDiacritics s)"
proof -
  have "\<forall>c \<in> set (trim (removeDiacritics s)). \<not> isDiacritic c"
    using set_trim[of "removeDiacritics s"] by (auto simp: removeDiacritics_def)
  then show ?thesis unfolding removeDiacritics_def[of "trim _"] by (simp add: filter_id_conv)
qed

text \<open>
  C9 as stated fails. In the string U+05BC U+034F U+05B4 the COMBINING GRAPHEME JOINER
  (class 0) stands between DAGESH (class 21) and HIRIQ (class 14), so the string is in
  canonical order and \<open>normalize('NFD')\<close> leaves it. The joiner lies in the deleted
  range U+0300..U+036F, and deleting it brings DAGESH directly in front of HIRIQ: the
  result is no longer in canonical order, and normalizing it again swaps the two marks.
\<close>

theorem normalizeString_not_idempotent:
  "normalizeString fragment (normalizeString fragment [0x5BC, 0x34F, 0x5B4]) \<noteq>
   normalizeString fragment [0x5BC, 0x34F, 0x5B4]"
  by (simp add: normalizeString_def fragment_def trim_def removeDiacritics_def
      isDiacritic_def canonicalOrder_def ccc_def asciiLower_def isWhiteSpace_def)

text \<open>
  C9, amended. \<open>normalizeString\<close> is idempotent on every string whose normalized form
  is left unchanged by \<open>toLowerCase\<close> and by \<open>normalize('NFD')\<close>: deleting the marks
  and trimming are idempotent, and trimming a string without marks leaves it without
  marks.
\<close>

theorem normalizeString_idempotent_if_stable:
  assumes "toLowerCase js (normalizeString js x) = normalizeString js x"
    and "normalizeNFD js (normalizeString js x) = normalizeString js x"
  shows "normalizeString js (normalizeString js x) = normalizeString js x"
proof -
  let ?z = "normalizeNFD js (toLowerCase js x)"
  have y: "normalizeString js x = trim (removeDiacritics ?z)" by (simp add: normalizeString_def)
  have "normalizeString js (normalizeString js x) =
        trim (removeDiacritics (normalizeString js x))"
    using assms by (simp add: normalizeString_def[of js "normalizeString js x"])
  also have "\<dots> = trim (trim (removeDiacritics ?z))"
    unfolding y by (simp only: removeDiacritics_trim)
  also have "\<dots> = normalizeString js x" unfolding y by (rule trim_trim)
  finally show ?thesis .
qed

theorem normalizeString_idempotent_if_stable_witness:
  "toLowerCase fragment (normalizeString fragment (str '' Oat Oven '')) =
     normalizeString fragment (str '' Oat Oven '') \<and>
   normalizeNFD fragment (normalizeString fragment (str '' Oat Oven '')) =
     normalizeString fragment (str '' Oat Oven '') \<and>
   normalizeString fragment (str '' Oat Oven '') = str ''oat oven'' \<and>
   normalizeString fragment (normalizeString fragment (str '' Oat Oven '')) =
     normalizeString fragment (str '' Oat Oven '')"
proof -
  have n: "normalizeString fragment (str '' Oat Oven '') = str ''oat oven''"
    by (simp add: normalizeString_def fragment_def trim_def removeDiacritics_def
        isDiacritic_def canonicalOrder_def ccc_def asciiLower_def isWhiteSpace_def str_def)
  have l: "toLowerCase fragment (normalizeString fragment (str '' Oat Oven '')) =
     normalizeString fragment (str '' Oat Oven '')"
    unfolding n by (simp add: fragment_def asciiLower_def str_def)
  have d: "normalizeNFD fragment (normalizeString fragment (str '' Oat Oven '')) =
     normalizeString fragment (str '' Oat Oven '')"
    unfolding n by (simp add: fragment_def canonicalOrder_def ccc_def str_def)
  from normalizeString_idempotent_if_stable[OF l d] l d n show ?thesis by simp
qed

section \<open>Relevance scorer: properties\<close>

lemma protein_word:
  assumes "map asciiLower word = str ''protein''"
  shows "length word = 7"
    and "\<exists>w0 ws. word = w0 # ws \<and> \<not> isDigit w0 \<and> \<not> isWhiteSpace w0 \<and> w0 \<noteq> 0x25"
proof -
  from assms have "length (map asciiLower word) = length (str ''protein'')" by simp
  then show "length word = 7" by (simp add: str_def)
  then obtain w0 ws where w: "word = w0 # ws" by (cases word) simp_all
  with assms have "asciiLower w0 = 112" by (simp add: str_def)
  then have "w0 = 112 \<or> w0 = 80" by (auto simp: asciiLower_def split: if_splits)
  then have "\<not> isDigit w0 \<and> \<not> isWhiteSpace w0 \<and> w0 \<noteq> 0x25"
    by (auto simp: isDigit_def isWhiteSpace_def)
  with w show "\<exists>w0 ws. word = w0 # ws \<and> \<not> isDigit w0 \<and> \<not> isWhiteSpace w0 \<and> w0 \<noteq> 0x25"
    by blast
qed

text \<open>Where the pattern occurs, the attempt of the regular expression at that start
  succeeds, with the digit group of the occurrence.\<close>

lemma matchProteinAt_pattern:
  assumes "digits \<noteq> []" and "list_all isDigit digits"
    and "percent = [] \<or> percent = [0x25]"
    and "list_all isWhiteSpace space"
    and "map asciiLower word = str ''protein''"
  shows "matchProteinAt (digits @ percent @ space @ word @ after) = Some digits"
proof -
  from protein_word[OF assms(5)] obtain w0 ws where
    len: "length word = 7" and w: "word = w0 # ws"
    and w0: "\<not> isDigit w0" "\<not> isWhiteSpace w0" "w0 \<noteq> 0x25" by blast
  let ?tail = "space @ word @ after"
  have sp: "dropWhile isWhiteSpace ?tail = word @ after"
    using assms(4) w w0(2) by (simp add: list_all_iff dropWhile_append2)
  have tail_hd: "?tail \<noteq> [] \<and> \<not> isDigit (hd ?tail) \<and> hd ?tail \<noteq> 0x25"
  proof (cases space)
    case Nil
    with w w0 show ?thesis by simp
  next
    case (Cons s0 ss)
    with assms(4) have "isWhiteSpace s0" by simp
    then have "\<not> isDigit s0 \<and> s0 \<noteq> 0x25"
      by (auto simp: isWhiteSpace_def isDigit_def)
    with Cons show ?thesis by simp
  qed
  let ?rest = "percent @ ?tail"
  have rest_hd: "?rest \<noteq> [] \<and> \<not> isDigit (hd ?rest)"
    using assms(3) tail_hd by (auto simp: isDigit_def)
  then have tw: "takeWhile isDigit ?rest = []" by (cases ?rest) auto
  from rest_hd have dw: "dropWhile isDigit ?rest = ?rest" by (cases ?rest) auto
  from assms(2) have t: "takeWhile isDigit (digits @ ?rest) = digits"
    using tw by (simp add: list_all_iff takeWhile_append2)
  from assms(2) have d: "dropWhile isDigit (digits @ ?rest) = ?rest"
    using dw by (simp add: list_all_iff dropWhile_append2)
  have p: "(case ?rest of [] \<Rightarrow> [] | c # cs \<Rightarrow> if c = 0x25 then cs else c # cs) = ?tail"
    using assms(3) tail_hd by (cases ?tail) auto
  show ?thesis
    unfolding matchProteinAt_def t d Let_def p sp
    using assms(1,5) len by simp
qed

lemma proteinPatternAt_matchProteinAt:
  assumes "proteinPatternAt query k digits"
  shows "matchProteinAt (drop k query) = Some digits"
proof -
  from assms obtain before percent space word after where
    q: "query = before @ digits @ percent @ space @ word @ after" and k: "length before = k"
    and c: "digits \<noteq> []" "list_all isDigit digits" "percent = [] \<or> percent = [0x25]"
      "list_all isWhiteSpace space" "map asciiLower word = str ''protein''"
    unfolding proteinPatternAt_def by blast
  from q k have "drop k query = digits @ percent @ space @ word @ after" by simp
  with matchProteinAt_pattern[OF c] show ?thesis by simp
qed

text \<open>Where the attempt at a start succeeds, the pattern occurs there, with the group
  the attempt returns.\<close>

lemma matchProteinAt_proteinPatternAt:
  assumes "matchProteinAt (drop k query) = Some digits"
  shows "proteinPatternAt query k digits"
proof -
  let ?s = "drop k query"
  let ?afterDigits = "dropWhile isDigit ?s"
  let ?afterPercent = "case ?afterDigits of [] \<Rightarrow> [] | c # cs \<Rightarrow> if c = 0x25 then cs else c # cs"
  let ?afterSpace = "dropWhile isWhiteSpace ?afterPercent"
  from assms have dg: "digits = takeWhile isDigit ?s" "digits \<noteq> []"
    and w: "map asciiLower (take 7 ?afterSpace) = str ''protein''"
    by (auto simp: matchProteinAt_def Let_def split: if_splits)
  from dg(2) have "?s \<noteq> []" unfolding dg(1) by auto
  then have kl: "k < length query" by simp
  obtain percent where pc: "percent = [] \<or> percent = [0x25]"
    and ap: "?afterDigits = percent @ ?afterPercent"
  proof (cases ?afterDigits)
    case Nil
    have "?afterDigits = [] @ ?afterPercent" unfolding Nil by simp
    then show ?thesis using that[of "[]"] by blast
  next
    case (Cons c cs)
    show ?thesis
    proof (cases "c = 0x25")
      case True
      have "?afterDigits = [0x25] @ ?afterPercent" unfolding Cons using True by simp
      then show ?thesis using that[of "[0x25]"] by blast
    next
      case False
      have "?afterDigits = [] @ ?afterPercent" unfolding Cons using False by simp
      then show ?thesis using that[of "[]"] by blast
    qed
  qed
  have "query = take k query @ ?s" by simp
  also have "?s = digits @ ?afterDigits" unfolding dg(1) by simp
  also have "?afterDigits = percent @ ?afterPercent" by (rule ap)
  also have "?afterPercent = takeWhile isWhiteSpace ?afterPercent @ ?afterSpace" by simp
  also have "?afterSpace = take 7 ?afterSpace @ drop 7 ?afterSpace" by simp
  finally have "query = take k query @ digits @ percent @
      takeWhile isWhiteSpace ?afterPercent @ take 7 ?afterSpace @ drop 7 ?afterSpace" .
  moreover from kl have "length (take k query) = k" by simp
  moreover have "list_all isDigit digits"
    unfolding dg(1) by (auto simp: list_all_iff dest: set_takeWhileD)
  moreover have "list_all isWhiteSpace (takeWhile isWhiteSpace ?afterPercent)"
    by (auto simp: list_all_iff dest: set_takeWhileD)
  ultimately show ?thesis
    unfolding proteinPatternAt_def using dg(2) pc w by blast
qed

text \<open>\<open>proteinMatch\<close> returns the group of the first start whose attempt succeeds.\<close>

lemma proteinMatch_leftmost:
  assumes "matchProteinAt (drop k query) = Some digits"
    and "\<forall>j<k. matchProteinAt (drop j query) = None"
  shows "proteinMatch query = Some digits"
  using assms
proof (induction query arbitrary: k)
  case Nil
  then show ?case by (simp add: matchProteinAt_def)
next
  case (Cons c cs)
  show ?case
  proof (cases k)
    case 0
    with Cons.prems(1) show ?thesis by simp
  next
    case (Suc k')
    with Cons.prems(2) have "matchProteinAt (drop 0 (c # cs)) = None" by blast
    then have first: "matchProteinAt (c # cs) = None" by simp
    from Cons.prems(1) Suc have here: "matchProteinAt (drop k' cs) = Some digits" by simp
    have "\<forall>j<k'. matchProteinAt (drop j cs) = None"
    proof (intro allI impI)
      fix j assume "j < k'"
      then have "Suc j < k" using Suc by simp
      with Cons.prems(2) have "matchProteinAt (drop (Suc j) (c # cs)) = None" by blast
      then show "matchProteinAt (drop j cs) = None" by simp
    qed
    from Cons.IH[OF here this] first show ?thesis by simp
  qed
qed

text \<open>A query that contains the pattern has a first occurrence, and the regular
  expression matches exactly the queries that contain the pattern.\<close>

lemma first_occurrence:
  assumes "containsProteinPattern query"
  shows "\<exists>k digits. proteinPatternAt query k digits \<and>
           (\<forall>j<k. \<forall>ds. \<not> proteinPatternAt query j ds)"
proof -
  let ?P = "\<lambda>k. \<exists>digits. proteinPatternAt query k digits"
  from assms have "\<exists>k. ?P k" unfolding containsProteinPattern_def by blast
  then obtain k where "?P k" and "\<forall>j<k. \<not> ?P j"
    using exists_least_iff[of ?P] by blast
  then show ?thesis by blast
qed

lemma proteinMatch_proteinPatternAt:
  "proteinMatch query = Some digits \<Longrightarrow> \<exists>k. proteinPatternAt query k digits"
proof (induction query)
  case Nil
  then show ?case by simp
next
  case (Cons c cs)
  show ?case
  proof (cases "matchProteinAt (c # cs)")
    case None
    with Cons.prems have "proteinMatch cs = Some digits" by simp
    from Cons.IH[OF this] obtain k where "proteinPatternAt cs k digits" by blast
    then have "matchProteinAt (drop (Suc k) (c # cs)) = Some digits"
      using proteinPatternAt_matchProteinAt by simp
    then show ?thesis by (blast intro: matchProteinAt_proteinPatternAt)
  next
    case (Some ds)
    with Cons.prems have "matchProteinAt (drop 0 (c # cs)) = Some digits" by simp
    then show ?thesis by (blast intro: matchProteinAt_proteinPatternAt)
  qed
qed

lemma proteinMatch_iff_pattern:
  "proteinMatch query \<noteq> None \<longleftrightarrow> containsProteinPattern query"
proof
  assume "proteinMatch query \<noteq> None"
  then show "containsProteinPattern query"
    unfolding containsProteinPattern_def using proteinMatch_proteinPatternAt by blast
next
  assume "containsProteinPattern query"
  from first_occurrence[OF this] obtain k digits where
    o: "proteinPatternAt query k digits" and f: "\<forall>j<k. \<forall>ds. \<not> proteinPatternAt query j ds"
    by blast
  have "\<forall>j<k. matchProteinAt (drop j query) = None"
  proof (intro allI impI)
    fix j assume "j < k"
    with f have "\<forall>ds. \<not> proteinPatternAt query j ds" by blast
    then show "matchProteinAt (drop j query) = None"
      using matchProteinAt_proteinPatternAt by (cases "matchProteinAt (drop j query)") blast+
  qed
  from proteinMatch_leftmost[OF proteinPatternAt_matchProteinAt[OF o] this]
  show "proteinMatch query \<noteq> None" by simp
qed




text \<open>Beyond \<open>2 ^ 53\<close> the conversion rounds: \<open>2 ^ 53 + 1\<close> lies half way between two
  doubles and goes to the even one.\<close>

lemma parseInt_rounds:
  "parseInt (str ''9007199254740993'') = Some 9007199254740992"
proof -
  have e: "excessBits 9007199254740993 = 1"
    by (subst excessBits.simps, simp, subst excessBits.simps, simp)
  have "foldl (\<lambda>n c. 10 * n + (c - 0x30)) 0 (str ''9007199254740993'') = 9007199254740993"
    by (simp add: str_def)
  then show ?thesis by (simp add: parseInt_def toNumber_def e)
qed






section \<open>The small catalog, evaluated\<close>

text \<open>The strings of the small catalog are ASCII, where \<open>fragment\<close> is the platform.\<close>

lemma sample_normalized:
  "normalizeString fragment (str ''oat'') = str ''oat''"
  "normalizeString fragment (str ''rye'') = str ''rye''"
  "normalizeString fragment (str ''Rye'') = str ''rye''"
  "normalizeString fragment (str ''Mill'') = str ''mill''"
  "normalizeString fragment (str ''dark'') = str ''dark''"
  "normalizeString fragment (str ''Oat Oven'') = str ''oat oven''"
  "normalizeString fragment (str ''Heat'') = str ''heat''"
  "normalizeString fragment (str ''deck'') = str ''deck''"
  "normalizeString fragment (str ''door'') = str ''door''"
  "normalizeString fragment (str ''Boat'') = str ''boat''"
  "normalizeString fragment (str ''Cane'') = str ''cane''"
  "normalizeString fragment (str ''basket'') = str ''basket''"
  "normalizeString fragment (str ''round'') = str ''round''"
  "normalizeString fragment (str ''Oat Flour'') = str ''oat flour''"
  "normalizeString fragment (str ''fine'') = str ''fine''"
  by (simp_all add: normalizeString_def fragment_def trim_def removeDiacritics_def
      isDiacritic_def canonicalOrder_def ccc_def asciiLower_def isWhiteSpace_def str_def)

lemma sample_distance: "levenshteinDistance (str ''rye'') (str ''oat'') = 3"
  by code_simp

lemmas sample_facts =
  sample_normalized[unfolded str_def, simplified] sample_distance[unfolded str_def, simplified]

lemmas score_defs = calculateRelevanceScore_def nameScore_def brandScore_def
  descriptionScore_def tagScore_def flourScore_def ovenScore_def popularityScore_def
  startsWith_def includesStr_def indexOf_def fuzzyMatch_def trim_def isWhiteSpace_def
  matchProteinAt_def isDigit_def str_def

lemma sample_scores:
  "calculateRelevanceScore fragment sampleBanneton (str ''oat'') = 60"
  "calculateRelevanceScore fragment sampleOven (str ''oat'') = 120"
  "calculateRelevanceScore fragment sampleRye (str ''oat'') = 0"
  "calculateRelevanceScore fragment sampleFlour (str ''oat'') = 120"
  by (simp_all add: sampleBanneton_def sampleOven_def sampleRye_def sampleFlour_def
      score_defs sample_facts)

lemma sample_query:
  "q sampleParams = str ''oat''" "trim (q sampleParams) \<noteq> []"
  "normalizeString fragment (q sampleParams) \<noteq> []"
  by (simp_all add: sampleParams_def trim_def isWhiteSpace_def sample_facts str_def)

lemma sample_filtered: "applyFilters sampleCatalog sampleParams = sampleCatalog"
  by (simp add: applyFilters_def passesFilters_def sampleCatalog_def sampleParams_def
      sampleBanneton_def sampleOven_def sampleRye_def sampleFlour_def)

lemma sample_search:
  "search fragment sampleCatalog sampleParams = Some [sampleOven, sampleFlour, sampleBanneton]"
proof -
  from search_returns[OF sample_query(3)]
  obtain out where out: "search fragment sampleCatalog sampleParams = Some out" by auto
  from search_with_query[OF sample_query(2) out]
  have "out = [sampleOven, sampleFlour, sampleBanneton]"
    unfolding sample_filtered sample_query(1) by (simp add: sampleCatalog_def sample_scores)
  with out show ?thesis by simp
qed

theorem search_sorted_stable_witness:
  "trim (q sampleParams) \<noteq> [] \<and>
   search fragment sampleCatalog sampleParams = Some [sampleOven, sampleFlour, sampleBanneton] \<and>
   map (\<lambda>p. calculateRelevanceScore fragment p (q sampleParams))
     [sampleOven, sampleFlour, sampleBanneton] = [120, 120, 60] \<and>
   sorted_wrt (\<lambda>a b. calculateRelevanceScore fragment a (q sampleParams) \<ge>
                      calculateRelevanceScore fragment b (q sampleParams))
     [sampleOven, sampleFlour, sampleBanneton] \<and>
   filter (\<lambda>p. calculateRelevanceScore fragment p (q sampleParams) = 120)
     [sampleOven, sampleFlour, sampleBanneton] =
   filter (\<lambda>p. calculateRelevanceScore fragment p (q sampleParams) = 120)
     (filter (\<lambda>p. 0 < calculateRelevanceScore fragment p (q sampleParams))
        (applyFilters sampleCatalog sampleParams))"
proof -
  from search_sorted_stable[OF sample_query(2), of fragment sampleCatalog] sample_search
  have "sorted_wrt (\<lambda>a b. calculateRelevanceScore fragment a (q sampleParams) \<ge>
                      calculateRelevanceScore fragment b (q sampleParams))
          [sampleOven, sampleFlour, sampleBanneton]"
    and "\<forall>k. filter (\<lambda>p. calculateRelevanceScore fragment p (q sampleParams) = k)
            [sampleOven, sampleFlour, sampleBanneton] =
          filter (\<lambda>p. calculateRelevanceScore fragment p (q sampleParams) = k)
            (filter (\<lambda>p. 0 < calculateRelevanceScore fragment p (q sampleParams))
               (applyFilters sampleCatalog sampleParams))"
    by blast+
  moreover have "map (\<lambda>p. calculateRelevanceScore fragment p (q sampleParams))
     [sampleOven, sampleFlour, sampleBanneton] = [120, 120, 60]"
    by (simp add: sample_query(1) sample_scores)
  ultimately show ?thesis using sample_query(2) sample_search by blast
qed

lemma sample_distinct: "sampleRye \<notin> set [sampleOven, sampleFlour, sampleBanneton]"
  by (simp add: sampleBanneton_def sampleOven_def sampleRye_def sampleFlour_def)

theorem search_positive_scores_witness:
  "trim (q sampleParams) \<noteq> [] \<and>
   search fragment sampleCatalog sampleParams = Some [sampleOven, sampleFlour, sampleBanneton] \<and>
   set [sampleOven, sampleFlour, sampleBanneton] =
     {p \<in> set (applyFilters sampleCatalog sampleParams).
        0 < calculateRelevanceScore fragment p (q sampleParams)} \<and>
   sampleRye \<in> set (applyFilters sampleCatalog sampleParams) \<and>
   calculateRelevanceScore fragment sampleRye (q sampleParams) = 0 \<and>
   sampleRye \<notin> set [sampleOven, sampleFlour, sampleBanneton]"
proof -
  from search_positive_scores[OF sample_query(2), of fragment sampleCatalog] sample_search
  have "set [sampleOven, sampleFlour, sampleBanneton] =
     {p \<in> set (applyFilters sampleCatalog sampleParams).
        0 < calculateRelevanceScore fragment p (q sampleParams)}"
    by blast
  moreover have "sampleRye \<in> set (applyFilters sampleCatalog sampleParams)"
    unfolding sample_filtered by (simp add: sampleCatalog_def)
  moreover have "calculateRelevanceScore fragment sampleRye (q sampleParams) = 0"
    by (simp add: sample_query(1) sample_scores)
  ultimately show ?thesis using sample_query(2) sample_search sample_distinct by blast
qed

theorem logicMode_noop_witness:
  "search fragment sampleCatalog (sampleParams\<lparr>logicMode := AND\<rparr>) =
     search fragment sampleCatalog (sampleParams\<lparr>logicMode := OR\<rparr>) \<and>
   search fragment sampleCatalog (sampleParams\<lparr>logicMode := OR\<rparr>) =
     Some [sampleOven, sampleFlour, sampleBanneton]"
proof -
  have "sampleParams\<lparr>logicMode := AND\<rparr> = sampleParams" by (simp add: sampleParams_def)
  with logicMode_noop[of fragment sampleCatalog sampleParams] sample_search
  show ?thesis by simp
qed

lemma sample_organic: "applyFilters sampleCatalog organicParams = [sampleFlour]"
  by (simp add: applyFilters_def passesFilters_def sampleCatalog_def organicParams_def
      sampleBanneton_def sampleOven_def sampleRye_def sampleFlour_def category_def str_def)

theorem applyFilters_spec_witness:
  "organicParam organicParams \<noteq> None \<and> sampleOven \<in> set sampleCatalog \<and>
   \<not> isFlourProduct sampleOven \<and>
   sampleOven \<notin> set (applyFilters sampleCatalog organicParams) \<and>
   applyFilters sampleCatalog organicParams = filter (filterSpec organicParams) sampleCatalog \<and>
   applyFilters sampleCatalog organicParams = [sampleFlour]"
proof -
  have h: "organicParam organicParams \<noteq> None" by (simp add: organicParams_def)
  have m: "sampleOven \<in> set sampleCatalog" by (simp add: sampleCatalog_def)
  have n: "\<not> isFlourProduct sampleOven"
    by (simp add: isFlourProduct_def category_def sampleOven_def str_def)
  from applyFilters_spec[of sampleCatalog organicParams] h m n
  have "sampleOven \<notin> set (applyFilters sampleCatalog organicParams)"
    and "applyFilters sampleCatalog organicParams = filter (filterSpec organicParams) sampleCatalog"
    by blast+
  with h m n sample_organic show ?thesis by blast
qed

end
